theory Spec2Isabelle
  imports Complex_Main
begin

section \<open>The statistics engine of utopian.rocks (\<^verbatim>\<open>src/utopian/app.py\<close>)\<close>

text \<open>
  The reducers of \<^verbatim>\<open>app.py\<close> take a list of contributions (JSON objects read as
  Python dictionaries) and build dictionaries of per-key statistics. The model keeps the
  shape of the code: a contribution is a record with the fields the reducers read, a
  Python dictionary is an association list in insertion order (the order in which
  \<^verbatim>\<open>.items()\<close> enumerates it), every \<^verbatim>\<open>for\<close> loop is a recursive function over
  the list it walks, and every exception the code can raise on such records is a value of
  \<open>py_error\<close>. JSON numbers (\<^verbatim>\<open>score\<close>, \<^verbatim>\<open>total_payout\<close>) are exact rationals:
  the rounding of Python floats is not modelled. Counters are Python integers, hence \<open>int\<close>.
\<close>

subsection \<open>Exceptions and contributions\<close>

datatype py_error = IndexError | ValueError | ZeroDivisionError | StatisticsError

record contribution =
  status :: string
  category :: string
  repository :: string
  moderator :: string
  score :: rat
  total_payout :: rat
  total_votes :: rat
  staff_picked :: bool
  voted_on :: bool
  author :: string
  url :: string
  review_date :: string

subsection \<open>Python strings: \<^verbatim>\<open>in\<close>, \<^verbatim>\<open>str.split\<close>, indexing\<close>

text \<open>\<^verbatim>\<open>s.startswith(p)\<close>.\<close>

fun startswith :: "string \<Rightarrow> string \<Rightarrow> bool" where
  "startswith s [] = True"
| "startswith [] (p # ps) = False"
| "startswith (c # cs) (p # ps) = (c = p \<and> startswith cs ps)"

text \<open>\<^verbatim>\<open>sub in s\<close> for strings: \<open>sub\<close> occurs in \<open>s\<close> as a contiguous substring.\<close>

fun str_contains :: "string \<Rightarrow> string \<Rightarrow> bool" where
  "str_contains sub [] = (sub = [])"
| "str_contains sub (c # cs) = (startswith (c # cs) sub \<or> str_contains sub cs)"

text \<open>
  \<^verbatim>\<open>s.split(sep)\<close>: the string is scanned from the left; at every occurrence of \<open>sep\<close>
  the piece read so far is emitted and the scan continues behind the occurrence. An empty
  separator raises \<^verbatim>\<open>ValueError\<close>.
\<close>

function split_from :: "string \<Rightarrow> string \<Rightarrow> string \<Rightarrow> string list" where
  "split_from sep piece [] = [piece]"
| "split_from sep piece (c # cs) =
     (if sep \<noteq> [] \<and> startswith (c # cs) sep
      then piece # split_from sep [] (drop (length sep) (c # cs))
      else split_from sep (piece @ [c]) cs)"
  by pat_completeness auto
termination
  by (relation "measure (\<lambda>(sep, piece, s). length s)") auto

definition str_split :: "string \<Rightarrow> string \<Rightarrow> py_error + string list" where
  "str_split s sep = (if sep = [] then Inl ValueError else Inr (split_from sep [] s))"

text \<open>\<^verbatim>\<open>xs[i]\<close> for an index \<open>i \<ge> 0\<close>.\<close>

definition index :: "'a list \<Rightarrow> nat \<Rightarrow> py_error + 'a" where
  "index xs i = (if i < length xs then Inr (xs ! i) else Inl IndexError)"

subsection \<open>Python dictionaries and \<^verbatim>\<open>collections.Counter\<close>\<close>

type_synonym ('k, 'v) dict = "('k \<times> 'v) list"

text \<open>\<^verbatim>\<open>d.setdefault(k, v)\<close>: a new key is added at the end, a present key keeps its value.\<close>

definition setdefault :: "('k, 'v) dict \<Rightarrow> 'k \<Rightarrow> 'v \<Rightarrow> ('k, 'v) dict" where
  "setdefault d k v = (if k \<in> fst ` set d then d else d @ [(k, v)])"

text \<open>\<^verbatim>\<open>d[k] = f(d[k])\<close>, the shape of \<^verbatim>\<open>d[k][field] += 1\<close> and \<^verbatim>\<open>d[k][field].append(x)\<close>.\<close>

definition modify :: "('k, 'v) dict \<Rightarrow> 'k \<Rightarrow> ('v \<Rightarrow> 'v) \<Rightarrow> ('k, 'v) dict" where
  "modify d k f = map (\<lambda>(k', v). if k' = k then (k', f v) else (k', v)) d"

text \<open>\<^verbatim>\<open>Counter(xs)\<close>: every element bumps its count, a new element starts from \<open>0\<close>.\<close>

definition Counter :: "string list \<Rightarrow> (string, int) dict" where
  "Counter xs = foldl (\<lambda>d x. modify (setdefault d x 0) x (\<lambda>n. n + 1)) [] xs"

subsection \<open>Numeric helpers\<close>

text \<open>\<^verbatim>\<open>statistics.mean\<close> raises \<^verbatim>\<open>StatisticsError\<close> on an empty sequence.\<close>

definition mean :: "rat list \<Rightarrow> py_error + rat" where
  "mean xs = (if xs = [] then Inl StatisticsError else Inr (sum_list xs / of_nat (length xs)))"

text \<open>\<^verbatim>\<open>average\<close>: \<^verbatim>\<open>try: return mean(score)  except Exception: return 0\<close>.\<close>

definition average :: "rat list \<Rightarrow> rat" where
  "average scores = (case mean scores of Inr m \<Rightarrow> m | Inl e \<Rightarrow> 0)"

text \<open>Python's \<^verbatim>\<open>/\<close> on numbers.\<close>

definition truediv :: "rat \<Rightarrow> rat \<Rightarrow> py_error + rat" where
  "truediv a b = (if b = 0 then Inl ZeroDivisionError else Inr (a / b))"

text \<open>\<^verbatim>\<open>percentage\<close>: \<^verbatim>\<open>100.0 * voted / reviewed\<close>, and \<open>100.0\<close> on \<^verbatim>\<open>ZeroDivisionError\<close>.\<close>

definition percentage :: "int \<Rightarrow> int \<Rightarrow> rat" where
  "percentage reviewed voted =
     (case truediv (100 * of_int voted) (of_int reviewed) of
        Inr p \<Rightarrow> p
      | Inl e \<Rightarrow> 100)"

subsection \<open>\<^verbatim>\<open>moderator_statistics\<close>\<close>

text \<open>
  The value stored per moderator while the loop runs (\<open>mw_\<close>) and after the second loop
  has replaced the two lists by the counter and the average (\<open>m_\<close>). The field names are
  the dictionary keys of the code behind a prefix.
\<close>

record moderator_work =
  mw_moderator :: string
  mw_category :: "string list"
  mw_average_score :: "rat list"

record moderator_bucket =
  m_moderator :: string
  m_category :: "(string, int) dict"
  m_average_score :: rat

fun moderator_loop ::
  "(string, moderator_work) dict \<Rightarrow> contribution list \<Rightarrow> (string, moderator_work) dict" where
  "moderator_loop moderators [] = moderators"
| "moderator_loop moderators (contribution # rest) =
     (if status contribution = ''unreviewed'' then moderator_loop moderators rest
      else if moderator contribution = ''BANNED'' then moderator_loop moderators rest
      else
        let m = moderator contribution;
            moderators = setdefault moderators m
              \<lparr>mw_moderator = m, mw_category = [], mw_average_score = []\<rparr>;
            moderators = modify moderators m
              (\<lambda>v. v\<lparr>mw_average_score := mw_average_score v @ [score contribution]\<rparr>);
            moderators = modify moderators m
              (\<lambda>v. v\<lparr>mw_category := mw_category v @ [category contribution]\<rparr>)
        in moderator_loop moderators rest)"

fun moderator_finalize ::
  "(string, moderator_work) dict \<Rightarrow> moderator_bucket list \<Rightarrow> moderator_bucket list" where
  "moderator_finalize [] moderator_list = moderator_list"
| "moderator_finalize ((m, v) # rest) moderator_list =
     moderator_finalize rest
       (moderator_list @
        [\<lparr>m_moderator = mw_moderator v,
          m_category = Counter (mw_category v),
          m_average_score = average (mw_average_score v)\<rparr>])"

text \<open>The result is the list stored under the key \<^verbatim>\<open>"moderators"\<close>.\<close>

definition moderator_statistics :: "contribution list \<Rightarrow> moderator_bucket list" where
  "moderator_statistics contributions =
     moderator_finalize (moderator_loop [] contributions) []"

subsection \<open>\<^verbatim>\<open>category_statistics\<close> and \<^verbatim>\<open>project_statistics\<close>\<close>

text \<open>
  Both reducers store the same entries per key, next to the key itself
  (\<^verbatim>\<open>"category"\<close> or \<^verbatim>\<open>"project"\<close>): \<open>tally\<close> is the value while the first loop runs
  (\<^verbatim>\<open>"average_score"\<close> and \<^verbatim>\<open>"moderators"\<close> are lists, \<^verbatim>\<open>"average_payout"\<close> is the
  unused empty list), \<open>bucket\<close> the value the second loop leaves.
\<close>

record tally =
  w_average_score :: "rat list"
  w_voted :: int
  w_not_voted :: int
  w_unvoted :: int
  w_task_requests :: int
  w_moderators :: "string list"
  w_average_payout :: "rat list"
  w_total_payout :: rat

record category_tally = tally +
  w_category :: string

record project_tally = tally +
  w_project :: string

record bucket =
  b_average_score :: rat
  b_voted :: int
  b_not_voted :: int
  b_unvoted :: int
  b_task_requests :: int
  b_moderators :: "(string, int) dict"
  b_average_payout :: rat
  b_total_payout :: rat
  b_reviewed :: int
  b_pct_voted :: rat

record category_bucket = bucket +
  b_category :: string

record project_bucket = bucket +
  b_project :: string

text \<open>
  Lines 170 to 177: the grouping key of a contribution and whether it is a task request.
  The test is \<^verbatim>\<open>"task" in category\<close>, the split is at \<^verbatim>\<open>"task-"\<close>, and element \<open>1\<close> of
  the pieces is taken.
\<close>

definition category_key :: "contribution \<Rightarrow> py_error + (string \<times> bool)" where
  "category_key contribution =
     (if str_contains ''task'' (category contribution)
      then (case str_split (category contribution) ''task-'' of
              Inl e \<Rightarrow> Inl e
            | Inr pieces \<Rightarrow>
                (case index pieces 1 of
                   Inl e \<Rightarrow> Inl e
                 | Inr cat \<Rightarrow> Inr (cat, True)))
      else Inr (category contribution, False))"

fun category_loop ::
  "(string, category_tally) dict \<Rightarrow> contribution list \<Rightarrow>
   py_error + (string, category_tally) dict" where
  "category_loop categories [] = Inr categories"
| "category_loop categories (contribution # rest) =
     (if status contribution = ''unreviewed'' then category_loop categories rest
      else
        case category_key contribution of
          Inl e \<Rightarrow> Inl e
        | Inr (cat, is_task) \<Rightarrow>
           (let categories = setdefault categories cat
                  \<lparr>w_average_score = [], w_voted = 0, w_not_voted = 0, w_unvoted = 0,
                    w_task_requests = 0, w_moderators = [], w_average_payout = [],
                    w_total_payout = 0, w_category = cat\<rparr>;
                categories =
                  (if status contribution = ''unvoted''
                   then modify (modify categories cat (\<lambda>v. v\<lparr>w_unvoted := w_unvoted v + 1\<rparr>))
                          cat (\<lambda>v. v\<lparr>w_not_voted := w_not_voted v + 1\<rparr>)
                   else if voted_on contribution
                   then modify categories cat (\<lambda>v. v\<lparr>w_voted := w_voted v + 1\<rparr>)
                   else modify categories cat (\<lambda>v. v\<lparr>w_not_voted := w_not_voted v + 1\<rparr>));
                categories =
                  (if is_task
                   then modify categories cat
                          (\<lambda>v. v\<lparr>w_task_requests := w_task_requests v + 1\<rparr>)
                   else categories);
                categories = modify categories cat
                  (\<lambda>v. v\<lparr>w_moderators := w_moderators v @ [moderator contribution]\<rparr>);
                categories = modify categories cat
                  (\<lambda>v. v\<lparr>w_average_score := w_average_score v @ [score contribution]\<rparr>);
                categories = modify categories cat
                  (\<lambda>v. v\<lparr>w_total_payout := w_total_payout v + total_payout contribution\<rparr>)
            in category_loop categories rest))"

fun category_finalize ::
  "(string, category_tally) dict \<Rightarrow> category_bucket list \<Rightarrow>
   py_error + category_bucket list" where
  "category_finalize [] category_list = Inr category_list"
| "category_finalize ((cat, v) # rest) category_list =
     (let reviewed = w_voted v + w_not_voted v;
          average_score = average (w_average_score v);
          moderators = Counter (w_moderators v)
      in case truediv (w_total_payout v) (of_int reviewed) of
           Inl e \<Rightarrow> Inl e
         | Inr average_payout \<Rightarrow>
             category_finalize rest
               (category_list @
                [\<lparr>b_average_score = average_score, b_voted = w_voted v,
                  b_not_voted = w_not_voted v, b_unvoted = w_unvoted v,
                  b_task_requests = w_task_requests v, b_moderators = moderators,
                  b_average_payout = average_payout, b_total_payout = w_total_payout v,
                  b_reviewed = reviewed, b_pct_voted = percentage reviewed (w_voted v),
                  b_category = w_category v\<rparr>]))"

text \<open>The result is the list stored under the key \<^verbatim>\<open>"categories"\<close>.\<close>

definition category_statistics :: "contribution list \<Rightarrow> py_error + category_bucket list" where
  "category_statistics contributions =
     (case category_loop [] contributions of
        Inl e \<Rightarrow> Inl e
      | Inr categories \<Rightarrow> category_finalize categories [])"

fun project_loop ::
  "(string, project_tally) dict \<Rightarrow> contribution list \<Rightarrow> (string, project_tally) dict" where
  "project_loop projects [] = projects"
| "project_loop projects (contribution # rest) =
     (if status contribution = ''unreviewed'' then project_loop projects rest
      else
        let project = repository contribution;
            projects = setdefault projects project
              \<lparr>w_average_score = [], w_voted = 0, w_not_voted = 0, w_unvoted = 0,
                w_task_requests = 0, w_moderators = [], w_average_payout = [],
                w_total_payout = 0, w_project = project\<rparr>;
            projects =
              (if status contribution = ''unvoted''
               then modify (modify projects project (\<lambda>v. v\<lparr>w_unvoted := w_unvoted v + 1\<rparr>))
                      project (\<lambda>v. v\<lparr>w_not_voted := w_not_voted v + 1\<rparr>)
               else if voted_on contribution
               then modify projects project (\<lambda>v. v\<lparr>w_voted := w_voted v + 1\<rparr>)
               else modify projects project (\<lambda>v. v\<lparr>w_not_voted := w_not_voted v + 1\<rparr>));
            projects =
              (if str_contains ''task'' (category contribution)
               then modify projects project
                      (\<lambda>v. v\<lparr>w_task_requests := w_task_requests v + 1\<rparr>)
               else projects);
            projects = modify projects project
              (\<lambda>v. v\<lparr>w_moderators := w_moderators v @ [moderator contribution]\<rparr>);
            projects = modify projects project
              (\<lambda>v. v\<lparr>w_average_score := w_average_score v @ [score contribution]\<rparr>);
            projects = modify projects project
              (\<lambda>v. v\<lparr>w_total_payout := w_total_payout v + total_payout contribution\<rparr>)
        in project_loop projects rest)"

fun project_finalize ::
  "(string, project_tally) dict \<Rightarrow> project_bucket list \<Rightarrow>
   py_error + project_bucket list" where
  "project_finalize [] project_list = Inr project_list"
| "project_finalize ((project, v) # rest) project_list =
     (let reviewed = w_voted v + w_not_voted v;
          average_score = average (w_average_score v)
      in case truediv (w_total_payout v) (of_int reviewed) of
           Inl e \<Rightarrow> Inl e
         | Inr average_payout \<Rightarrow>
             project_finalize rest
               (project_list @
                [\<lparr>b_average_score = average_score, b_voted = w_voted v,
                  b_not_voted = w_not_voted v, b_unvoted = w_unvoted v,
                  b_task_requests = w_task_requests v,
                  b_moderators = Counter (w_moderators v),
                  b_average_payout = average_payout, b_total_payout = w_total_payout v,
                  b_reviewed = reviewed, b_pct_voted = percentage reviewed (w_voted v),
                  b_project = w_project v\<rparr>]))"

text \<open>The result is the list stored under the key \<^verbatim>\<open>"projects"\<close>.\<close>

definition project_statistics :: "contribution list \<Rightarrow> py_error + project_bucket list" where
  "project_statistics contributions = project_finalize (project_loop [] contributions) []"

subsection \<open>\<^verbatim>\<open>staff_pick_statistics\<close> and \<^verbatim>\<open>task_request_statistics\<close>\<close>

fun staff_pick_loop :: "contribution list \<Rightarrow> contribution list \<Rightarrow> contribution list" where
  "staff_pick_loop staff_picks [] = staff_picks"
| "staff_pick_loop staff_picks (contribution # rest) =
     (if \<not> staff_picked contribution then staff_pick_loop staff_picks rest
      else staff_pick_loop (staff_picks @ [contribution]) rest)"

text \<open>The result is the list stored under the key \<^verbatim>\<open>"staff_picks"\<close>.\<close>

definition staff_pick_statistics :: "contribution list \<Rightarrow> contribution list" where
  "staff_pick_statistics contributions = staff_pick_loop [] contributions"

fun task_request_loop :: "contribution list \<Rightarrow> contribution list \<Rightarrow> contribution list" where
  "task_request_loop task_requests [] = task_requests"
| "task_request_loop task_requests (contribution # rest) =
     (if str_contains ''task'' (category contribution)
      then task_request_loop (task_requests @ [contribution]) rest
      else task_request_loop task_requests rest)"

text \<open>The result is the list stored under the key \<^verbatim>\<open>"task_requests"\<close>.\<close>

definition task_request_statistics :: "contribution list \<Rightarrow> contribution list" where
  "task_request_statistics contributions = task_request_loop [] contributions"

section \<open>Specification-side notions\<close>

text \<open>
  What the specification says the reducers compute, written without iteration or
  dictionaries, to be compared with the functions above.
\<close>

subsection \<open>Grouping in first-seen order\<close>

text \<open>The distinct elements of a list, in the order of their first occurrence.\<close>

function first_seen :: "'a list \<Rightarrow> 'a list" where
  "first_seen [] = []"
| "first_seen (x # xs) = x # first_seen (removeAll x xs)"
  by pat_completeness auto
termination
  by (relation "measure length") (auto simp: less_Suc_eq_le)

text \<open>A frequency count: every distinct element with its number of occurrences.\<close>

definition frequency_count :: "string list \<Rightarrow> (string, int) dict" where
  "frequency_count xs = map (\<lambda>x. (x, int (count_list xs x))) (first_seen xs)"

text \<open>
  Grouping records by a key: one entry per distinct key, in first-seen order, holding the
  default value of the key updated by the records of the group, in their order.
\<close>

definition grouped ::
  "('c \<Rightarrow> 'k) \<Rightarrow> ('k \<Rightarrow> 'v) \<Rightarrow> ('c \<Rightarrow> 'v \<Rightarrow> 'v) \<Rightarrow> 'c list \<Rightarrow> ('k, 'v) dict" where
  "grouped key dflt upd cs =
     map (\<lambda>k. (k, fold upd (filter (\<lambda>c. key c = k) cs) (dflt k))) (first_seen (map key cs))"

subsection \<open>Which records count, and under which key\<close>

text \<open>A record is counted by the three reducers unless its status is \<^verbatim>\<open>unreviewed\<close>.\<close>

definition counted :: "contribution \<Rightarrow> bool" where
  "counted c \<longleftrightarrow> status c \<noteq> ''unreviewed''"

text \<open>
  The text of \<open>s\<close> in front of the first occurrence of \<open>sep\<close> (all of \<open>s\<close> when there is
  none), and the text behind that occurrence (empty when there is none).
\<close>

fun before_first :: "string \<Rightarrow> string \<Rightarrow> string" where
  "before_first sep [] = []"
| "before_first sep (c # cs) =
     (if startswith (c # cs) sep then [] else c # before_first sep cs)"

fun after_first :: "string \<Rightarrow> string \<Rightarrow> string" where
  "after_first sep [] = []"
| "after_first sep (c # cs) =
     (if startswith (c # cs) sep then drop (length sep) (c # cs) else after_first sep cs)"

text \<open>
  The key of a task request: the text behind the first \<^verbatim>\<open>task-\<close>, up to the next
  \<^verbatim>\<open>task-\<close> or to the end of the category.
\<close>

definition task_key :: "string \<Rightarrow> string" where
  "task_key s = before_first ''task-'' (after_first ''task-'' s)"

definition normalized_category :: "contribution \<Rightarrow> string" where
  "normalized_category c =
     (if str_contains ''task-'' (category c) then task_key (category c) else category c)"

text \<open>
  A counted record whose category has \<^verbatim>\<open>task\<close> in it, but not \<^verbatim>\<open>task-\<close>: the test of
  line 173 lets it through to the split of line 174, which has no element \<open>1\<close> for it.
\<close>

definition stray_task :: "contribution \<Rightarrow> bool" where
  "stray_task c \<longleftrightarrow>
     status c \<noteq> ''unreviewed'' \<and> str_contains ''task'' (category c)
     \<and> \<not> str_contains ''task-'' (category c)"

subsection \<open>Vote-status outcomes\<close>




subsection \<open>The bucket of a group of records\<close>

definition moderator_summary :: "string \<Rightarrow> contribution list \<Rightarrow> moderator_bucket" where
  "moderator_summary m rs =
     \<lparr>m_moderator = m, m_category = frequency_count (map category rs),
      m_average_score = average (map score rs)\<rparr>"

definition category_summary :: "string \<Rightarrow> contribution list \<Rightarrow> category_bucket" where
  "category_summary k rs =
     \<lparr>b_average_score = average (map score rs),
      b_voted = int (length (filter (\<lambda>c. status c \<noteq> ''unvoted'' \<and> voted_on c) rs)),
      b_not_voted = int (length (filter (\<lambda>c. status c = ''unvoted'' \<or> \<not> voted_on c) rs)),
      b_unvoted = int (length (filter (\<lambda>c. status c = ''unvoted'') rs)),
      b_task_requests = int (length (filter (\<lambda>c. str_contains ''task-'' (category c)) rs)),
      b_moderators = frequency_count (map moderator rs),
      b_average_payout = sum_list (map total_payout rs) / of_nat (length rs),
      b_total_payout = sum_list (map total_payout rs),
      b_reviewed = int (length rs),
      b_pct_voted =
        percentage (int (length rs))
          (int (length (filter (\<lambda>c. status c \<noteq> ''unvoted'' \<and> voted_on c) rs))),
      b_category = k\<rparr>"

definition project_summary :: "string \<Rightarrow> contribution list \<Rightarrow> project_bucket" where
  "project_summary k rs =
     \<lparr>b_average_score = average (map score rs),
      b_voted = int (length (filter (\<lambda>c. status c \<noteq> ''unvoted'' \<and> voted_on c) rs)),
      b_not_voted = int (length (filter (\<lambda>c. status c = ''unvoted'' \<or> \<not> voted_on c) rs)),
      b_unvoted = int (length (filter (\<lambda>c. status c = ''unvoted'') rs)),
      b_task_requests = int (length (filter (\<lambda>c. str_contains ''task'' (category c)) rs)),
      b_moderators = frequency_count (map moderator rs),
      b_average_payout = sum_list (map total_payout rs) / of_nat (length rs),
      b_total_payout = sum_list (map total_payout rs),
      b_reviewed = int (length rs),
      b_pct_voted =
        percentage (int (length rs))
          (int (length (filter (\<lambda>c. status c \<noteq> ''unvoted'' \<and> voted_on c) rs))),
      b_project = k\<rparr>"

section \<open>Auxiliary definitions of the proofs\<close>

text \<open>
  One pass of a loop body over the dictionary: \<^verbatim>\<open>setdefault\<close> with the default value of
  the key, then the update of the entry.
\<close>

definition group_step ::
  "('c \<Rightarrow> 'k) \<Rightarrow> ('k \<Rightarrow> 'v) \<Rightarrow> ('c \<Rightarrow> 'v \<Rightarrow> 'v) \<Rightarrow> ('k, 'v) dict \<Rightarrow> 'c \<Rightarrow> ('k, 'v) dict" where
  "group_step key dflt upd d c = modify (setdefault d (key c) (dflt (key c))) (key c) (upd c)"

text \<open>The dictionary literals of the three \<^verbatim>\<open>setdefault\<close> calls.\<close>

definition moderator_default :: "string \<Rightarrow> moderator_work" where
  "moderator_default m = \<lparr>mw_moderator = m, mw_category = [], mw_average_score = []\<rparr>"

definition category_default :: "string \<Rightarrow> category_tally" where
  "category_default cat =
     \<lparr>w_average_score = [], w_voted = 0, w_not_voted = 0, w_unvoted = 0,
      w_task_requests = 0, w_moderators = [], w_average_payout = [],
      w_total_payout = 0, w_category = cat\<rparr>"

definition project_default :: "string \<Rightarrow> project_tally" where
  "project_default project =
     \<lparr>w_average_score = [], w_voted = 0, w_not_voted = 0, w_unvoted = 0,
      w_task_requests = 0, w_moderators = [], w_average_payout = [],
      w_total_payout = 0, w_project = project\<rparr>"

text \<open>The updates one record makes to the entry of its key, taken together.\<close>

definition moderator_add :: "contribution \<Rightarrow> moderator_work \<Rightarrow> moderator_work" where
  "moderator_add c v =
     v\<lparr>mw_average_score := mw_average_score v @ [score c],
       mw_category := mw_category v @ [category c]\<rparr>"

definition tally_add :: "bool \<Rightarrow> contribution \<Rightarrow> 'a tally_scheme \<Rightarrow> 'a tally_scheme" where
  "tally_add is_task c = (\<lambda>v.
     v\<lparr>w_unvoted := w_unvoted v + (if status c = ''unvoted'' then 1 else 0),
       w_not_voted := w_not_voted v + (if status c = ''unvoted'' \<or> \<not> voted_on c then 1 else 0),
       w_voted := w_voted v + (if status c \<noteq> ''unvoted'' \<and> voted_on c then 1 else 0),
       w_task_requests := w_task_requests v + (if is_task then 1 else 0),
       w_moderators := w_moderators v @ [moderator c],
       w_average_score := w_average_score v @ [score c],
       w_total_payout := w_total_payout v + total_payout c\<rparr>)"

text \<open>The entry the second loop makes of a dictionary value, when the division succeeds.\<close>

definition moderator_entry :: "moderator_work \<Rightarrow> moderator_bucket" where
  "moderator_entry v =
     \<lparr>m_moderator = mw_moderator v, m_category = Counter (mw_category v),
      m_average_score = average (mw_average_score v)\<rparr>"

definition category_entry :: "category_tally \<Rightarrow> category_bucket" where
  "category_entry v =
     \<lparr>b_average_score = average (w_average_score v), b_voted = w_voted v,
      b_not_voted = w_not_voted v, b_unvoted = w_unvoted v,
      b_task_requests = w_task_requests v, b_moderators = Counter (w_moderators v),
      b_average_payout = w_total_payout v / of_int (w_voted v + w_not_voted v),
      b_total_payout = w_total_payout v, b_reviewed = w_voted v + w_not_voted v,
      b_pct_voted = percentage (w_voted v + w_not_voted v) (w_voted v),
      b_category = w_category v\<rparr>"

definition project_entry :: "project_tally \<Rightarrow> project_bucket" where
  "project_entry v =
     \<lparr>b_average_score = average (w_average_score v), b_voted = w_voted v,
      b_not_voted = w_not_voted v, b_unvoted = w_unvoted v,
      b_task_requests = w_task_requests v, b_moderators = Counter (w_moderators v),
      b_average_payout = w_total_payout v / of_int (w_voted v + w_not_voted v),
      b_total_payout = w_total_payout v, b_reviewed = w_voted v + w_not_voted v,
      b_pct_voted = percentage (w_voted v + w_not_voted v) (w_voted v),
      b_project = w_project v\<rparr>"

section \<open>Sample data\<close>

text \<open>A reviewed, voted task request; the closed instances below vary its fields.\<close>

definition sample :: contribution where
  "sample =
     \<lparr>status = ''reviewed'', category = ''task-dev'', repository = ''utopian/app'',
      moderator = ''amos'', score = 8, total_payout = 10, total_votes = 3,
      staff_picked = False, voted_on = True, author = ''a'', url = ''u'',
      review_date = ''d''\<rparr>"

text \<open>
  Two records of one category and one project: the task request, and an unvoted
  contribution of the category \<^verbatim>\<open>dev\<close>; and the buckets they make.
\<close>

definition sample_batch :: "contribution list" where
  "sample_batch = [sample, sample\<lparr>status := ''unvoted'', category := ''dev''\<rparr>]"

definition sample_categories :: "category_bucket list" where
  "sample_categories =
     [\<lparr>b_average_score = 8, b_voted = 1, b_not_voted = 1, b_unvoted = 1,
       b_task_requests = 1, b_moderators = [(''amos'', 2)], b_average_payout = 10,
       b_total_payout = 20, b_reviewed = 2, b_pct_voted = 50, b_category = ''dev''\<rparr>]"

definition sample_projects :: "project_bucket list" where
  "sample_projects =
     [\<lparr>b_average_score = 8, b_voted = 1, b_not_voted = 1, b_unvoted = 1,
       b_task_requests = 1, b_moderators = [(''amos'', 2)], b_average_payout = 10,
       b_total_payout = 20, b_reviewed = 2, b_pct_voted = 50,
       b_project = ''utopian/app''\<rparr>]"



section \<open>Verification\<close>

subsection \<open>The two filters\<close>

lemma staff_pick_loop_filter:
  "staff_pick_loop staff_picks cs = staff_picks @ filter staff_picked cs"
  by (induction cs arbitrary: staff_picks) simp_all

lemma task_request_loop_filter:
  "task_request_loop task_requests cs =
     task_requests @ filter (\<lambda>c. str_contains ''task'' (category c)) cs"
  by (induction cs arbitrary: task_requests) simp_all

text \<open>
  Claim C8. The staff-pick filter returns exactly the contributions whose
  \<^verbatim>\<open>staff_picked\<close> is true, each one unchanged and in the order of the input.
\<close>

theorem staff_pick_statistics_is_filter:
  "staff_pick_statistics cs = filter staff_picked cs"
  by (simp add: staff_pick_statistics_def staff_pick_loop_filter)

subsection \<open>The safe average\<close>


subsection \<open>Dictionaries and grouping\<close>

lemma modify_modify: "modify (modify d k f) k g = modify d k (g \<circ> f)"
  by (induction d) (auto simp: modify_def)

lemma modify_id: "modify d k id = d"
  by (induction d) (auto simp: modify_def)

lemma modify_absent: "k \<notin> fst ` set d \<Longrightarrow> modify d k f = d"
  by (induction d) (auto simp: modify_def)

lemma modify_append: "modify (d @ e) k f = modify d k f @ modify e k f"
  by (simp add: modify_def)

lemma keys_modify: "map fst (modify d k f) = map fst d"
  by (induction d) (auto simp: modify_def)

lemma set_first_seen: "set (first_seen xs) = set xs"
  by (induction xs rule: first_seen.induct) auto

lemma distinct_first_seen: "distinct (first_seen xs)"
  by (induction xs rule: first_seen.induct) (auto simp: set_first_seen)

lemma first_seen_distinct: "distinct xs \<Longrightarrow> first_seen xs = xs"
  by (induction xs) (auto simp: removeAll_id)

lemma removeAll_map_key:
  "removeAll (key c) (map key xs) = map key (filter (\<lambda>c'. key c' \<noteq> key c) xs)"
  by (induction xs) auto

lemma grouped_Nil: "grouped key dflt upd [] = []"
  by (simp add: grouped_def)

lemma grouped_Cons:
  "grouped key dflt upd (c # cs) =
     (key c, fold upd (filter (\<lambda>c'. key c' = key c) cs) (upd c (dflt (key c))))
     # grouped key dflt upd (filter (\<lambda>c'. key c' \<noteq> key c) cs)"
proof -
  have "filter (\<lambda>c'. key c' = k) (filter (\<lambda>c'. key c' \<noteq> key c) cs)
        = filter (\<lambda>c'. key c' = k) (c # cs)"
    if "k \<in> set (first_seen (map key (filter (\<lambda>c'. key c' \<noteq> key c) cs)))" for k
  proof -
    from that have "k \<noteq> key c" by (auto simp: set_first_seen)
    then have "(\<lambda>x. key x \<noteq> key c \<and> key x = k) = (\<lambda>x. key x = k)" by auto
    with \<open>k \<noteq> key c\<close> show ?thesis by simp
  qed
  then show ?thesis
    by (simp add: grouped_def removeAll_map_key)
qed

lemma foldl_group_step:
  "foldl (group_step key dflt upd) d cs =
     map (\<lambda>(k, v). (k, fold upd (filter (\<lambda>c. key c = k) cs) v)) d
     @ grouped key dflt upd (filter (\<lambda>c. key c \<notin> fst ` set d) cs)"
proof (induction cs arbitrary: d)
  case Nil
  show ?case by (simp add: grouped_Nil)
next
  case (Cons c cs)
  show ?case
  proof (cases "key c \<in> fst ` set d")
    case True
    then have step: "group_step key dflt upd d c = modify d (key c) (upd c)"
      by (simp add: group_step_def setdefault_def)
    have keys: "fst ` set (modify d (key c) (upd c)) = fst ` set d"
      using keys_modify [of d "key c" "upd c"] by (metis set_map)
    have "map (\<lambda>(k, v). (k, fold upd (filter (\<lambda>c. key c = k) cs) v)) (modify d (key c) (upd c))
          = map (\<lambda>(k, v). (k, fold upd (filter (\<lambda>c'. key c' = k) (c # cs)) v)) d"
      by (auto simp: modify_def)
    with True show ?thesis
      by (simp add: Cons.IH step keys)
  next
    case False
    then have step: "group_step key dflt upd d c = d @ [(key c, upd c (dflt (key c)))]"
      by (simp add: group_step_def setdefault_def modify_append modify_absent) (simp add: modify_def)
    have old: "map (\<lambda>(k, v). (k, fold upd (filter (\<lambda>c. key c = k) cs) v)) d
          = map (\<lambda>(k, v). (k, fold upd (filter (\<lambda>c'. key c' = k) (c # cs)) v)) d"
      using False by (auto simp: image_iff)
    have flt: "filter (\<lambda>c'. key c' \<noteq> key c \<and> key c' \<notin> fst ` set d) cs
          = filter (\<lambda>c'. key c' \<noteq> key c) (filter (\<lambda>c'. key c' \<notin> fst ` set d) cs)"
      by (auto intro: filter_cong)
    have same: "filter (\<lambda>c'. key c' = key c) (filter (\<lambda>c'. key c' \<notin> fst ` set d) cs)
          = filter (\<lambda>c'. key c' = key c) cs"
    proof -
      have "\<And>b. (key c, b) \<notin> set d" using False by force
      then show ?thesis unfolding filter_filter by (intro filter_cong) auto
    qed
    from False show ?thesis
      by (simp add: Cons.IH step old grouped_Cons flt same del: filter_filter)
  qed
qed

lemma foldl_group_step_empty:
  "foldl (group_step key dflt upd) [] cs = grouped key dflt upd cs"
  by (simp add: foldl_group_step)

lemma Counter_group: "Counter xs = foldl (group_step id (\<lambda>k. 0) (\<lambda>x n. n + 1)) [] xs"
proof -
  have "group_step (id :: string \<Rightarrow> string) (\<lambda>k. 0) (\<lambda>x n. n + 1) = (\<lambda>d x. modify (setdefault d x (0::int)) x (\<lambda>n. n + 1))"
    by (intro ext) (simp add: group_step_def)
  then show ?thesis by (simp add: Counter_def)
qed

lemma fold_plus_one: "fold (\<lambda>x n. n + 1) xs (a::int) = a + int (length xs)"
  by (induction xs arbitrary: a) auto

lemma count_list_length_filter: "count_list xs x = length (filter (\<lambda>y. y = x) xs)"
  by (induction xs) auto

lemma Counter_frequency_count: "Counter xs = frequency_count xs"
  by (simp add: Counter_group foldl_group_step_empty grouped_def frequency_count_def
      fold_plus_one count_list_length_filter)

subsection \<open>The moderator reducer as a grouping\<close>

lemma moderator_loop_group:
  "moderator_loop d cs =
     foldl (group_step moderator moderator_default moderator_add) d
       (filter (\<lambda>c. status c \<noteq> ''unreviewed'' \<and> moderator c \<noteq> ''BANNED'') cs)"
proof (induction cs arbitrary: d)
  case Nil
  show ?case by simp
next
  case (Cons c cs)
  have "(\<lambda>v. v\<lparr>mw_category := mw_category v @ [category c]\<rparr>) \<circ>
        (\<lambda>v. v\<lparr>mw_average_score := mw_average_score v @ [score c]\<rparr>) = moderator_add c"
    by (simp add: fun_eq_iff moderator_add_def)
  then show ?case
    by (simp add: Cons.IH Let_def modify_modify group_step_def moderator_default_def)
qed

lemma fold_moderator_add:
  "fold moderator_add rs v =
     v\<lparr>mw_average_score := mw_average_score v @ map score rs,
       mw_category := mw_category v @ map category rs\<rparr>"
  by (induction rs arbitrary: v) (simp_all add: moderator_add_def)

lemma moderator_finalize_map:
  "moderator_finalize d acc = acc @ map (\<lambda>(m, v). moderator_entry v) d"
  by (induction d arbitrary: acc) (auto simp: moderator_entry_def)

lemma moderator_statistics_grouped:
  "moderator_statistics cs =
     map (\<lambda>m. moderator_summary m
            (filter (\<lambda>c. status c \<noteq> ''unreviewed'' \<and> moderator c \<noteq> ''BANNED'' \<and> moderator c = m) cs))
       (first_seen (map moderator
          (filter (\<lambda>c. status c \<noteq> ''unreviewed'' \<and> moderator c \<noteq> ''BANNED'') cs)))"
  by (simp add: moderator_statistics_def moderator_loop_group foldl_group_step_empty
      moderator_finalize_map grouped_def fold_moderator_add moderator_entry_def
      moderator_summary_def moderator_default_def Counter_frequency_count conj_ac comp_def)

subsection \<open>Substrings and the split at \<^verbatim>\<open>task-\<close>\<close>

lemma startswith_iff: "startswith s p \<longleftrightarrow> (\<exists>q. s = p @ q)"
  by (induction s p rule: startswith.induct) auto

lemma str_contains_iff: "str_contains sub s \<longleftrightarrow> (\<exists>p q. s = p @ sub @ q)"
proof (induction s)
  case Nil
  show ?case by auto
next
  case (Cons c cs)
  show ?case
  proof
    assume "str_contains sub (c # cs)"
    then consider "startswith (c # cs) sub" | "str_contains sub cs" by auto
    then show "\<exists>p q. c # cs = p @ sub @ q"
    proof cases
      case 1
      then obtain q where "c # cs = sub @ q" by (auto simp: startswith_iff)
      then have "c # cs = [] @ sub @ q" by simp
      then show ?thesis by blast
    next
      case 2
      then obtain p q where "cs = p @ sub @ q" using Cons.IH by blast
      then have "c # cs = (c # p) @ sub @ q" by simp
      then show ?thesis by blast
    qed
  next
    assume "\<exists>p q. c # cs = p @ sub @ q"
    then obtain p q where pq: "c # cs = p @ sub @ q" by blast
    show "str_contains sub (c # cs)"
    proof (cases p)
      case Nil
      with pq have "startswith (c # cs) sub" by (auto simp: startswith_iff)
      then show ?thesis by simp
    next
      case (Cons a p')
      with pq have "cs = p' @ sub @ q" by simp
      then have "str_contains sub cs" using Cons.IH by blast
      then show ?thesis by simp
    qed
  qed
qed

lemma str_contains_prefix: "str_contains (p @ q) s \<Longrightarrow> str_contains p s"
proof -
  assume "str_contains (p @ q) s"
  then obtain a b where "s = a @ (p @ q) @ b" by (auto simp: str_contains_iff)
  then have "s = a @ p @ (q @ b)" by simp
  then show ?thesis unfolding str_contains_iff by blast
qed

lemma task_dash_task: "str_contains ''task-'' s \<Longrightarrow> str_contains ''task'' s"
  using str_contains_prefix [of "''task''" "''-''" s] by simp

lemma split_from_absent:
  "\<not> str_contains sep s \<Longrightarrow> split_from sep piece s = [piece @ s]"
  by (induction s arbitrary: piece) auto

lemma split_from_present:
  "sep \<noteq> [] \<Longrightarrow> str_contains sep s \<Longrightarrow>
   split_from sep piece s = (piece @ before_first sep s) # split_from sep [] (after_first sep s)"
  by (induction s arbitrary: piece) auto

lemma before_first_absent: "\<not> str_contains sep s \<Longrightarrow> before_first sep s = s"
  by (induction s) auto

lemma hd_split_from:
  "sep \<noteq> [] \<Longrightarrow> \<exists>rest. split_from sep piece s = (piece @ before_first sep s) # rest"
  by (cases "str_contains sep s") (simp_all add: split_from_present split_from_absent before_first_absent)

lemma split_decompose:
  "str_contains sep s \<Longrightarrow> s = before_first sep s @ sep @ after_first sep s"
  by (induction s) (auto simp: startswith_iff)

lemma index_one_split:
  assumes "sep \<noteq> []" "str_contains sep s"
  shows "index (split_from sep [] s) (Suc 0) = Inr (before_first sep (after_first sep s))"
proof -
  obtain rest where "split_from sep [] (after_first sep s)
      = before_first sep (after_first sep s) # rest"
    using hd_split_from [OF assms(1), of "[]" "after_first sep s"] by auto
  then show ?thesis
    using split_from_present [OF assms, of "[]"] by (simp add: index_def)
qed

lemma category_key_cases:
  "category_key c =
     (if str_contains ''task-'' (category c) then Inr (task_key (category c), True)
      else if str_contains ''task'' (category c) then Inl IndexError
      else Inr (category c, False))"
proof (cases "str_contains ''task-'' (category c)")
  case True
  then show ?thesis
    by (simp add: category_key_def str_split_def index_one_split task_key_def task_dash_task)
next
  case False
  then show ?thesis
    by (simp add: category_key_def str_split_def split_from_absent index_def)
qed

subsection \<open>The category and project reducers as groupings\<close>

lemma fold_tally_add:
  "fold (\<lambda>c. tally_add (t c) c) rs v =
     v\<lparr>w_unvoted := w_unvoted v + int (length (filter (\<lambda>c. status c = ''unvoted'') rs)),
       w_not_voted := w_not_voted v
          + int (length (filter (\<lambda>c. status c = ''unvoted'' \<or> \<not> voted_on c) rs)),
       w_voted := w_voted v
          + int (length (filter (\<lambda>c. status c \<noteq> ''unvoted'' \<and> voted_on c) rs)),
       w_task_requests := w_task_requests v + int (length (filter t rs)),
       w_moderators := w_moderators v @ map moderator rs,
       w_average_score := w_average_score v @ map score rs,
       w_total_payout := w_total_payout v + sum_list (map total_payout rs)\<rparr>"
  by (induction rs arbitrary: v) (simp_all add: tally_add_def)

lemma vote_then_rest:
  "(\<lambda>v. v\<lparr>w_total_payout := w_total_payout v + total_payout c\<rparr>) \<circ>
   (\<lambda>v. v\<lparr>w_average_score := w_average_score v @ [score c]\<rparr>) \<circ>
   (\<lambda>v. v\<lparr>w_moderators := w_moderators v @ [moderator c]\<rparr>) \<circ>
   (if t then (\<lambda>v. v\<lparr>w_task_requests := w_task_requests v + 1\<rparr>) else id) \<circ>
   (if status c = ''unvoted''
    then (\<lambda>v. v\<lparr>w_not_voted := w_not_voted v + 1\<rparr>) \<circ> (\<lambda>v. v\<lparr>w_unvoted := w_unvoted v + 1\<rparr>)
    else if voted_on c then (\<lambda>v. v\<lparr>w_voted := w_voted v + 1\<rparr>)
    else (\<lambda>v. v\<lparr>w_not_voted := w_not_voted v + 1\<rparr>)) = tally_add t c"
  by (simp add: fun_eq_iff tally_add_def)

lemma modify_if:
  "(if b then modify d k f else modify d k g) = modify d k (if b then f else g)"
  by simp

lemma modify_if_id: "(if b then modify d k f else d) = modify d k (if b then f else id)"
  by (simp add: modify_id)

lemma category_loop_step:
  assumes "status c \<noteq> ''unreviewed''" "category_key c = Inr (k, t)"
  shows "category_loop d (c # rest) =
         category_loop (modify (setdefault d k (category_default k)) k (tally_add t c)) rest"
  using assms
  by (simp add: Let_def modify_if modify_if_id modify_modify category_default_def
      vote_then_rest [symmetric] comp_assoc del: if_split cong: if_cong)

lemma project_loop_step:
  assumes "status c \<noteq> ''unreviewed''"
  shows "project_loop d (c # rest) =
         project_loop (modify (setdefault d (repository c) (project_default (repository c)))
            (repository c) (tally_add (str_contains ''task'' (category c)) c)) rest"
  using assms
  by (simp add: Let_def modify_if modify_if_id modify_modify project_default_def
      vote_then_rest [symmetric] comp_assoc del: if_split cong: if_cong)

lemma voted_or_not:
  "int (length (filter (\<lambda>c. status c \<noteq> ''unvoted'' \<and> voted_on c) rs))
   + int (length (filter (\<lambda>c. status c = ''unvoted'' \<or> \<not> voted_on c) rs)) = int (length rs)"
proof -
  have "(\<lambda>c. status c = ''unvoted'' \<or> \<not> voted_on c)
        = (\<lambda>c. \<not> (status c \<noteq> ''unvoted'' \<and> voted_on c))" by auto
  then show ?thesis
    using sum_length_filter_compl [of "\<lambda>c. status c \<noteq> ''unvoted'' \<and> voted_on c" rs] by simp
qed

lemma category_entry_fold:
  "category_entry (fold (\<lambda>c. tally_add (str_contains ''task-'' (category c)) c) rs
     (category_default k)) = category_summary k rs"
  by (simp add: category_entry_def fold_tally_add category_default_def category_summary_def
      voted_or_not Counter_frequency_count)

lemma project_entry_fold:
  "project_entry (fold (\<lambda>c. tally_add (str_contains ''task'' (category c)) c) rs
     (project_default k)) = project_summary k rs"
  by (simp add: project_entry_def fold_tally_add project_default_def project_summary_def
      voted_or_not Counter_frequency_count)

lemma category_finalize_map:
  "category_finalize d acc =
     (if \<exists>v \<in> snd ` set d. w_voted v + w_not_voted v = 0 then Inl ZeroDivisionError
      else Inr (acc @ map (\<lambda>(k, v). category_entry v) d))"
proof (induction d arbitrary: acc)
  case Nil
  show ?case by simp
next
  case (Cons kv d)
  obtain k v where kv: "kv = (k, v)" by (cases kv)
  show ?case
  proof (cases "w_voted v + w_not_voted v = 0")
    case True
    then show ?thesis by (simp add: kv Let_def truediv_def)
  next
    case False
    then have "category_finalize ((k, v) # d) acc = category_finalize d (acc @ [category_entry v])"
      by (simp add: Let_def truediv_def category_entry_def)
    with False show ?thesis by (simp add: kv Cons.IH)
  qed
qed

lemma project_finalize_map:
  "project_finalize d acc =
     (if \<exists>v \<in> snd ` set d. w_voted v + w_not_voted v = 0 then Inl ZeroDivisionError
      else Inr (acc @ map (\<lambda>(k, v). project_entry v) d))"
proof (induction d arbitrary: acc)
  case Nil
  show ?case by simp
next
  case (Cons kv d)
  obtain k v where kv: "kv = (k, v)" by (cases kv)
  show ?case
  proof (cases "w_voted v + w_not_voted v = 0")
    case True
    then show ?thesis by (simp add: kv Let_def truediv_def)
  next
    case False
    then have "project_finalize ((k, v) # d) acc = project_finalize d (acc @ [project_entry v])"
      by (simp add: Let_def truediv_def project_entry_def)
    with False show ?thesis by (simp add: kv Cons.IH)
  qed
qed

lemma category_loop_group:
  "category_loop d cs =
     (if \<exists>c \<in> set cs. stray_task c then Inl IndexError
      else Inr (foldl (group_step normalized_category category_default
                  (\<lambda>c. tally_add (str_contains ''task-'' (category c)) c)) d
                (filter counted cs)))"
proof (induction cs arbitrary: d)
  case Nil
  show ?case by simp
next
  case (Cons c cs)
  show ?case
  proof (cases "status c = ''unreviewed''")
    case True
    then have "\<not> counted c" "\<not> stray_task c"
      by (simp_all add: counted_def stray_task_def)
    with True show ?thesis by (simp add: Cons.IH)
  next
    case False
    note reviewed = this
    then have cnt: "counted c" by (simp add: counted_def)
    show ?thesis
    proof (cases "str_contains ''task-'' (category c)")
      case True
      then have key: "category_key c = Inr (normalized_category c, True)"
        by (simp add: category_key_cases normalized_category_def)
      from True have "\<not> stray_task c" by (simp add: stray_task_def)
      moreover from True have
        "group_step normalized_category category_default
           (\<lambda>c. tally_add (str_contains ''task-'' (category c)) c) d c
         = modify (setdefault d (normalized_category c)
             (category_default (normalized_category c))) (normalized_category c)
             (tally_add True c)"
        by (simp add: group_step_def)
      ultimately show ?thesis using cnt
        by (simp only: category_loop_step [OF reviewed key] Cons.IH) simp
    next
      case no_dash: False
      show ?thesis
      proof (cases "str_contains ''task'' (category c)")
        case True
        with no_dash reviewed have "stray_task c" by (simp add: stray_task_def)
        with True no_dash reviewed show ?thesis
          by (simp add: category_key_cases)
      next
        case False
        with no_dash have key: "category_key c = Inr (normalized_category c, False)"
          by (simp add: category_key_cases normalized_category_def)
        from False have "\<not> stray_task c" by (simp add: stray_task_def)
        moreover from no_dash have
          "group_step normalized_category category_default
             (\<lambda>c. tally_add (str_contains ''task-'' (category c)) c) d c
           = modify (setdefault d (normalized_category c)
               (category_default (normalized_category c))) (normalized_category c)
               (tally_add False c)"
          by (simp add: group_step_def)
        ultimately show ?thesis using cnt
          by (simp only: category_loop_step [OF reviewed key] Cons.IH) simp
      qed
    qed
  qed
qed

lemma project_loop_group:
  "project_loop d cs =
     foldl (group_step repository project_default
              (\<lambda>c. tally_add (str_contains ''task'' (category c)) c)) d
       (filter counted cs)"
proof (induction cs arbitrary: d)
  case Nil
  show ?case by simp
next
  case (Cons c cs)
  show ?case
  proof (cases "status c = ''unreviewed''")
    case True
    then have "\<not> counted c" by (simp add: counted_def)
    with True show ?thesis by (simp add: Cons.IH)
  next
    case False
    then have "counted c" by (simp add: counted_def)
    moreover have
      "group_step repository project_default
         (\<lambda>c. tally_add (str_contains ''task'' (category c)) c) d c
       = modify (setdefault d (repository c) (project_default (repository c)))
           (repository c) (tally_add (str_contains ''task'' (category c)) c)"
      by (simp add: group_step_def)
    ultimately show ?thesis
      by (simp only: project_loop_step [OF False] Cons.IH) simp
  qed
qed

lemma grouped_values_nonempty:
  "(k, v) \<in> set (grouped key dflt upd cs) \<Longrightarrow>
   v = fold upd (filter (\<lambda>c. key c = k) cs) (dflt k) \<and> filter (\<lambda>c. key c = k) cs \<noteq> []"
  by (auto simp: grouped_def set_first_seen filter_empty_conv)

lemma tally_reviewed_positive:
  assumes "rs \<noteq> []" "w_voted v0 = 0" "w_not_voted v0 = 0"
  shows "w_voted (fold (\<lambda>c. tally_add (t c) c) rs v0)
         + w_not_voted (fold (\<lambda>c. tally_add (t c) c) rs v0) = int (length rs)"
  using assms by (simp add: fold_tally_add voted_or_not)

lemma map_entry_grouped:
  "map (\<lambda>(k, v). entry v) (grouped key dflt upd cs)
   = map (\<lambda>k. entry (fold upd (filter (\<lambda>c. key c = k) cs) (dflt k))) (first_seen (map key cs))"
  by (simp add: grouped_def comp_def)

lemma category_statistics_summary:
  "category_statistics cs =
     (if \<exists>c \<in> set cs. stray_task c then Inl IndexError
      else Inr (map (\<lambda>k. category_summary k
                       (filter (\<lambda>c. counted c \<and> normalized_category c = k) cs))
                  (first_seen (map normalized_category (filter counted cs)))))"
proof -
  let ?upd = "\<lambda>c. tally_add (str_contains ''task-'' (category c)) c"
  let ?g = "grouped normalized_category category_default ?upd (filter counted cs)"
  have pos: "w_voted v + w_not_voted v \<noteq> 0" if "v \<in> snd ` set ?g" for v
  proof -
    from that obtain k where "(k, v) \<in> set ?g" by auto
    from grouped_values_nonempty [OF this] obtain rs
      where rs: "rs \<noteq> []" and v: "v = fold ?upd rs (category_default k)"
      by blast
    have "w_voted v + w_not_voted v = int (length rs)"
      unfolding v by (rule tally_reviewed_positive [OF rs]) (simp_all add: category_default_def)
    with rs show ?thesis by simp
  qed
  then have "\<not> (\<exists>v \<in> snd ` set ?g. w_voted v + w_not_voted v = 0)" by blast
  then show ?thesis
    by (simp add: category_statistics_def category_loop_group foldl_group_step_empty
        category_finalize_map map_entry_grouped category_entry_fold conj_commute
        del: ex_simps bex_simps)
qed

lemma project_statistics_summary:
  "project_statistics cs =
     Inr (map (\<lambda>k. project_summary k (filter (\<lambda>c. counted c \<and> repository c = k) cs))
            (first_seen (map repository (filter counted cs))))"
proof -
  let ?upd = "\<lambda>c. tally_add (str_contains ''task'' (category c)) c"
  let ?g = "grouped repository project_default ?upd (filter counted cs)"
  have pos: "w_voted v + w_not_voted v \<noteq> 0" if "v \<in> snd ` set ?g" for v
  proof -
    from that obtain k where "(k, v) \<in> set ?g" by auto
    from grouped_values_nonempty [OF this] obtain rs
      where rs: "rs \<noteq> []" and v: "v = fold ?upd rs (project_default k)"
      by blast
    have "w_voted v + w_not_voted v = int (length rs)"
      unfolding v by (rule tally_reviewed_positive [OF rs]) (simp_all add: project_default_def)
    with rs show ?thesis by simp
  qed
  then have "\<not> (\<exists>v \<in> snd ` set ?g. w_voted v + w_not_voted v = 0)" by blast
  then show ?thesis
    by (simp add: project_statistics_def project_loop_group foldl_group_step_empty
        project_finalize_map map_entry_grouped project_entry_fold conj_commute
        del: ex_simps bex_simps)
qed

subsection \<open>The buckets of the output\<close>

lemma category_bucket_summary:
  assumes "category_statistics cs = Inr bs" "b \<in> set bs"
  shows "b = category_summary (b_category b)
               (filter (\<lambda>c. counted c \<and> normalized_category c = b_category b) cs)"
    and "\<exists>c \<in> set cs. counted c \<and> normalized_category c = b_category b"
proof -
  from assms(1) have "bs = map (\<lambda>k. category_summary k
        (filter (\<lambda>c. counted c \<and> normalized_category c = k) cs))
        (first_seen (map normalized_category (filter counted cs)))"
    by (simp add: category_statistics_summary split: if_splits)
  with assms(2) have "b \<in> (\<lambda>k. category_summary k
        (filter (\<lambda>c. counted c \<and> normalized_category c = k) cs))
        ` set (map normalized_category (filter counted cs))"
    by (simp add: set_first_seen)
  then obtain k where k: "k \<in> set (map normalized_category (filter counted cs))"
    and b: "b = category_summary k (filter (\<lambda>c. counted c \<and> normalized_category c = k) cs)"
    by blast
  have key: "b_category b = k" by (simp add: b category_summary_def)
  show "b = category_summary (b_category b)
               (filter (\<lambda>c. counted c \<and> normalized_category c = b_category b) cs)"
    using b key by simp
  show "\<exists>c \<in> set cs. counted c \<and> normalized_category c = b_category b"
    using k key by auto
qed


lemma project_bucket_summary:
  assumes "project_statistics cs = Inr ps" "b \<in> set ps"
  shows "b = project_summary (b_project b)
               (filter (\<lambda>c. counted c \<and> repository c = b_project b) cs)"
    and "\<exists>c \<in> set cs. counted c \<and> repository c = b_project b"
proof -
  from assms(1) have "ps = map (\<lambda>k. project_summary k
        (filter (\<lambda>c. counted c \<and> repository c = k) cs))
        (first_seen (map repository (filter counted cs)))"
    by (simp add: project_statistics_summary)
  with assms(2) have "b \<in> (\<lambda>k. project_summary k
        (filter (\<lambda>c. counted c \<and> repository c = k) cs))
        ` set (map repository (filter counted cs))"
    by (simp add: set_first_seen)
  then obtain k where k: "k \<in> set (map repository (filter counted cs))"
    and b: "b = project_summary k (filter (\<lambda>c. counted c \<and> repository c = k) cs)"
    by blast
  have key: "b_project b = k" by (simp add: b project_summary_def)
  show "b = project_summary (b_project b)
               (filter (\<lambda>c. counted c \<and> repository c = b_project b) cs)"
    using b key by simp
  show "\<exists>c \<in> set cs. counted c \<and> repository c = b_project b"
    using k key by auto
qed


lemma length_filter_mono:
  "(\<And>x. P x \<Longrightarrow> Q x) \<Longrightarrow> length (filter P xs) \<le> length (filter Q xs)"
  by (induction xs) auto

lemma summary_invariants:
  "b_reviewed (category_summary k rs) = b_voted (category_summary k rs) + b_not_voted (category_summary k rs)"
  "b_unvoted (category_summary k rs) \<le> b_not_voted (category_summary k rs)"
  "b_reviewed (project_summary k rs) = b_voted (project_summary k rs) + b_not_voted (project_summary k rs)"
  "b_unvoted (project_summary k rs) \<le> b_not_voted (project_summary k rs)"
  by (simp_all add: category_summary_def project_summary_def voted_or_not length_filter_mono)

subsection \<open>Invariants of the buckets\<close>

text \<open>
  Claim C2. In every bucket that the category reducer or the project reducer produces,
  \<^verbatim>\<open>reviewed\<close> is \<^verbatim>\<open>voted + not_voted\<close>, and \<^verbatim>\<open>unvoted\<close> is at most \<^verbatim>\<open>not_voted\<close>.
\<close>

theorem reviewed_is_voted_plus_not_voted:
  "(category_statistics cs = Inr bs \<longrightarrow>
      (\<forall>b \<in> set bs. b_reviewed b = b_voted b + b_not_voted b \<and> b_unvoted b \<le> b_not_voted b))
   \<and> (project_statistics cs = Inr ps \<longrightarrow>
      (\<forall>b \<in> set ps. b_reviewed b = b_voted b + b_not_voted b \<and> b_unvoted b \<le> b_not_voted b))"
proof (intro conjI impI ballI)
  fix b assume "category_statistics cs = Inr bs" "b \<in> set bs"
  from category_bucket_summary(1) [OF this] obtain k rs where b: "b = category_summary k rs"
    by blast
  show "b_reviewed b = b_voted b + b_not_voted b" "b_unvoted b \<le> b_not_voted b"
    unfolding b by (rule summary_invariants)+
next
  fix b assume "project_statistics cs = Inr ps" "b \<in> set ps"
  from project_bucket_summary(1) [OF this] obtain k rs where b: "b = project_summary k rs"
    by blast
  show "b_reviewed b = b_voted b + b_not_voted b" "b_unvoted b \<le> b_not_voted b"
    unfolding b by (rule summary_invariants)+
qed

theorem reviewed_is_voted_plus_not_voted_witness:
  "category_statistics sample_batch = Inr sample_categories
   \<and> project_statistics sample_batch = Inr sample_projects
   \<and> list_all (\<lambda>b. b_reviewed b = b_voted b + b_not_voted b \<and> b_unvoted b \<le> b_not_voted b)
        sample_categories
   \<and> list_all (\<lambda>b. b_reviewed b = b_voted b + b_not_voted b \<and> b_unvoted b \<le> b_not_voted b)
        sample_projects"
proof -
  have c: "category_statistics sample_batch = Inr sample_categories" by code_simp
  have p: "project_statistics sample_batch = Inr sample_projects" by code_simp
  from reviewed_is_voted_plus_not_voted [of sample_batch sample_categories sample_projects]
  show ?thesis using c p by (simp add: list_all_iff)
qed

text \<open>
  Claim C3. Every bucket of the category reducer and of the project reducer has
  \<^verbatim>\<open>reviewed\<close> at least \<open>1\<close>: the division \<^verbatim>\<open>total_payout / reviewed\<close> never raises
  \<^verbatim>\<open>ZeroDivisionError\<close>. The category reducer never fails with that error, and the
  project reducer always returns.
\<close>

theorem reviewed_positive_no_zero_division:
  "(category_statistics cs = Inr bs \<longrightarrow> (\<forall>b \<in> set bs. 1 \<le> b_reviewed b))
   \<and> category_statistics cs \<noteq> Inl ZeroDivisionError
   \<and> (\<exists>ps. project_statistics cs = Inr ps \<and> (\<forall>b \<in> set ps. 1 \<le> b_reviewed b))"
proof (intro conjI impI ballI)
  fix b assume bs: "category_statistics cs = Inr bs" "b \<in> set bs"
  from category_bucket_summary [OF bs]
  obtain c where "c \<in> set cs" "counted c" "normalized_category c = b_category b"
    and b: "b = category_summary (b_category b)
                  (filter (\<lambda>c. counted c \<and> normalized_category c = b_category b) cs)"
    by blast
  then have "filter (\<lambda>c. counted c \<and> normalized_category c = b_category b) cs \<noteq> []"
    by (auto simp: filter_empty_conv)
  then have "1 \<le> b_reviewed (category_summary (b_category b)
                  (filter (\<lambda>c. counted c \<and> normalized_category c = b_category b) cs))"
    by (cases "filter (\<lambda>c. counted c \<and> normalized_category c = b_category b) cs")
       (simp_all add: category_summary_def)
  with b show "1 \<le> b_reviewed b" by simp
next
  show "category_statistics cs \<noteq> Inl ZeroDivisionError"
    by (simp add: category_statistics_summary)
next
  have "\<forall>b \<in> set ps. 1 \<le> b_reviewed b" if ps: "project_statistics cs = Inr ps" for ps
  proof
    fix b assume "b \<in> set ps"
    from project_bucket_summary [OF ps this]
    obtain c where "c \<in> set cs" "counted c" "repository c = b_project b"
      and b: "b = project_summary (b_project b)
                    (filter (\<lambda>c. counted c \<and> repository c = b_project b) cs)"
      by blast
    then have "filter (\<lambda>c. counted c \<and> repository c = b_project b) cs \<noteq> []"
      by (auto simp: filter_empty_conv)
    then have "1 \<le> b_reviewed (project_summary (b_project b)
                    (filter (\<lambda>c. counted c \<and> repository c = b_project b) cs))"
      by (cases "filter (\<lambda>c. counted c \<and> repository c = b_project b) cs")
         (simp_all add: project_summary_def)
    with b show "1 \<le> b_reviewed b" by simp
  qed
  then show "\<exists>ps. project_statistics cs = Inr ps \<and> (\<forall>b \<in> set ps. 1 \<le> b_reviewed b)"
    by (simp add: project_statistics_summary)
qed

theorem reviewed_positive_no_zero_division_witness:
  "category_statistics sample_batch = Inr sample_categories
   \<and> project_statistics sample_batch = Inr sample_projects
   \<and> list_all (\<lambda>b. 1 \<le> b_reviewed b) sample_categories
   \<and> list_all (\<lambda>b. 1 \<le> b_reviewed b) sample_projects"
proof -
  have c: "category_statistics sample_batch = Inr sample_categories" by code_simp
  have p: "project_statistics sample_batch = Inr sample_projects" by code_simp
  from reviewed_positive_no_zero_division [of sample_batch sample_categories]
  show ?thesis using c p by (simp add: list_all_iff)
qed

subsection \<open>The category key\<close>

text \<open>
  Claim C4. The category reducer is not total: whenever the input holds a record that is
  not \<^verbatim>\<open>unreviewed\<close> and whose category has \<^verbatim>\<open>task\<close> in it but not \<^verbatim>\<open>task-\<close> (the
  category \<^verbatim>\<open>task\<close> itself, for one), the computation of its key raises
  \<^verbatim>\<open>IndexError\<close>, and so does the reducer.
\<close>

theorem category_statistics_stray_task_raises:
  assumes "c \<in> set cs" "status c \<noteq> ''unreviewed''"
    "str_contains ''task'' (category c)" "\<not> str_contains ''task-'' (category c)"
  shows "category_key c = Inl IndexError \<and> category_statistics cs = Inl IndexError"
proof
  from assms(3,4) show "category_key c = Inl IndexError"
    by (simp add: category_key_cases)
  from assms have "\<exists>c \<in> set cs. stray_task c"
    by (auto simp: stray_task_def)
  then show "category_statistics cs = Inl IndexError"
    by (simp add: category_statistics_summary)
qed

theorem category_statistics_stray_task_raises_witness:
  "status (sample\<lparr>category := ''task''\<rparr>) \<noteq> ''unreviewed''
   \<and> str_contains ''task'' (category (sample\<lparr>category := ''task''\<rparr>))
   \<and> \<not> str_contains ''task-'' (category (sample\<lparr>category := ''task''\<rparr>))
   \<and> category_key (sample\<lparr>category := ''task''\<rparr>) = Inl IndexError
   \<and> category_statistics [sample\<lparr>category := ''task''\<rparr>] = Inl IndexError"
proof -
  have h: "sample\<lparr>category := ''task''\<rparr> \<in> set [sample\<lparr>category := ''task''\<rparr>]"
    "status (sample\<lparr>category := ''task''\<rparr>) \<noteq> ''unreviewed''"
    "str_contains ''task'' (category (sample\<lparr>category := ''task''\<rparr>))"
    "\<not> str_contains ''task-'' (category (sample\<lparr>category := ''task''\<rparr>))"
    by (simp_all add: sample_def)
  from category_statistics_stray_task_raises [OF h] h show ?thesis by simp
qed

lemma str_contains_length: "str_contains sub s \<Longrightarrow> length sub \<le> length s"
  by (auto simp: str_contains_iff)

lemma before_first_leftmost:
  "sep \<noteq> [] \<Longrightarrow> str_contains sep s \<Longrightarrow> \<not> str_contains sep (before_first sep s @ butlast sep)"
proof (induction s)
  case Nil
  then show ?case by simp
next
  case (Cons c cs)
  show ?case
  proof (cases "startswith (c # cs) sep")
    case True
    have "\<not> str_contains sep (butlast sep)"
      using str_contains_length [of sep "butlast sep"] Cons.prems(1)
      by (auto simp: length_greater_0_conv [symmetric] simp del: length_greater_0_conv)
    with True show ?thesis by simp
  next
    case False
    with Cons.prems have cs: "str_contains sep cs" by simp
    with Cons have IH: "\<not> str_contains sep (before_first sep cs @ butlast sep)" by simp
    have "\<not> startswith (c # before_first sep cs @ butlast sep) sep"
    proof
      assume "startswith (c # before_first sep cs @ butlast sep) sep"
      then obtain q where q: "c # before_first sep cs @ butlast sep = sep @ q"
        by (auto simp: startswith_iff)
      have "cs = before_first sep cs @ (butlast sep @ [last sep]) @ after_first sep cs"
        using split_decompose [OF cs] Cons.prems(1) by simp
      then have "c # cs = (c # before_first sep cs @ butlast sep) @ [last sep] @ after_first sep cs"
        by simp
      then have "c # cs = sep @ (q @ [last sep] @ after_first sep cs)"
        unfolding q by simp
      then have "startswith (c # cs) sep" unfolding startswith_iff by blast
      with False show False by simp
    qed
    with IH False show ?thesis by simp
  qed
qed

lemma task_key_between:
  assumes "str_contains ''task-'' s"
  shows "\<exists>p r. s = p @ ''task-'' @ task_key s @ r
           \<and> \<not> str_contains ''task-'' (p @ ''task'')
           \<and> (r = [] \<and> \<not> str_contains ''task-'' (task_key s)
              \<or> startswith r ''task-'' \<and> \<not> str_contains ''task-'' (task_key s @ ''task''))"
proof -
  let ?sep = "''task-''"
  let ?p = "before_first ?sep s" and ?t = "after_first ?sep s"
  have s: "s = ?p @ ?sep @ ?t" by (rule split_decompose [OF assms])
  have p: "\<not> str_contains ?sep (?p @ ''task'')"
    using before_first_leftmost [of ?sep s] assms by simp
  show ?thesis
  proof (cases "str_contains ?sep ?t")
    case True
    have t: "?t = task_key s @ ?sep @ after_first ?sep ?t"
      unfolding task_key_def by (rule split_decompose [OF True])
    have k: "\<not> str_contains ?sep (task_key s @ ''task'')"
      using before_first_leftmost [of ?sep ?t] True by (simp add: task_key_def)
    have "s = ?p @ ?sep @ task_key s @ (?sep @ after_first ?sep ?t)"
      using s t by simp
    moreover have "startswith (?sep @ after_first ?sep ?t) ?sep"
      unfolding startswith_iff by blast
    ultimately show ?thesis using p k by blast
  next
    case False
    then have "task_key s = ?t" by (simp add: task_key_def before_first_absent)
    with s False have "s = ?p @ ?sep @ task_key s @ []" "\<not> str_contains ?sep (task_key s)"
      by simp_all
    with p show ?thesis by blast
  qed
qed

text \<open>
  Claim C1, as amended. The key computed for a record whose category contains \<^verbatim>\<open>task-\<close>
  is the text between the first \<^verbatim>\<open>task-\<close> and the next one (the rest of the category
  when there is no other; lemma \<open>task_key_between\<close>), with the task flag set; the key of a
  record whose category does not contain \<^verbatim>\<open>task\<close> is the category itself, with the flag
  unset. Whenever the category reducer returns, its buckets are the distinct such keys of
  the counted records, in first-seen order, and the \<^verbatim>\<open>task-requests\<close> of a bucket is the
  number of counted records of its key whose category contains \<^verbatim>\<open>task-\<close>: one for each.
\<close>

theorem task_requests_grouped_under_task_key:
  "(str_contains ''task-'' (category c) \<longrightarrow> category_key c = Inr (task_key (category c), True))
   \<and> (\<not> str_contains ''task'' (category c) \<longrightarrow> category_key c = Inr (category c, False))
   \<and> (category_statistics cs = Inr bs \<longrightarrow>
        map b_category bs = first_seen (map normalized_category (filter counted cs))
        \<and> (\<forall>b \<in> set bs.
             b_task_requests b =
               int (length (filter (\<lambda>c. counted c \<and> normalized_category c = b_category b
                                       \<and> str_contains ''task-'' (category c)) cs))))"
proof (intro conjI impI ballI)
  assume "str_contains ''task-'' (category c)"
  then show "category_key c = Inr (task_key (category c), True)"
    by (simp add: category_key_cases)
next
  assume "\<not> str_contains ''task'' (category c)"
  moreover from this have "\<not> str_contains ''task-'' (category c)"
    using task_dash_task by blast
  ultimately show "category_key c = Inr (category c, False)"
    by (simp add: category_key_cases)
next
  assume "category_statistics cs = Inr bs"
  then have "bs = map (\<lambda>k. category_summary k
        (filter (\<lambda>c. counted c \<and> normalized_category c = k) cs))
        (first_seen (map normalized_category (filter counted cs)))"
    by (simp add: category_statistics_summary split: if_splits)
  then show "map b_category bs = first_seen (map normalized_category (filter counted cs))"
    by (simp add: comp_def category_summary_def)
next
  fix b assume "category_statistics cs = Inr bs" "b \<in> set bs"
  from category_bucket_summary(1) [OF this]
  have "b_task_requests b = b_task_requests (category_summary (b_category b)
               (filter (\<lambda>c. counted c \<and> normalized_category c = b_category b) cs))"
    by simp
  also have "\<dots> = int (length (filter (\<lambda>c. counted c \<and> normalized_category c = b_category b
                                       \<and> str_contains ''task-'' (category c)) cs))"
    by (simp add: category_summary_def conj_ac)
  finally show "b_task_requests b =
               int (length (filter (\<lambda>c. counted c \<and> normalized_category c = b_category b
                                       \<and> str_contains ''task-'' (category c)) cs))" .
qed

theorem task_requests_grouped_under_task_key_witness:
  "category_key sample = Inr (''dev'', True)
   \<and> category_key (sample\<lparr>category := ''dev''\<rparr>) = Inr (''dev'', False)
   \<and> category_statistics sample_batch = Inr sample_categories
   \<and> map b_category sample_categories = [''dev'']
   \<and> map b_task_requests sample_categories = [1]"
proof -
  have c: "category_statistics sample_batch = Inr sample_categories" by code_simp
  have k: "str_contains ''task-'' (category sample)" "task_key (category sample) = ''dev''"
    "\<not> str_contains ''task'' (category (sample\<lparr>category := ''dev''\<rparr>))"
    by code_simp+
  have f: "first_seen (map normalized_category (filter counted sample_batch)) = [''dev'']"
    "length (filter (\<lambda>c. counted c \<and> normalized_category c = ''dev''
                         \<and> str_contains ''task-'' (category c)) sample_batch) = 1"
    by code_simp+
  from task_requests_grouped_under_task_key [of sample sample_batch sample_categories]
    task_requests_grouped_under_task_key [of "sample\<lparr>category := ''dev''\<rparr>" "[]" "[]"]
  show ?thesis using c k f by (simp add: sample_categories_def)
qed

text \<open>
  The claim as stated fails twice. The category \<^verbatim>\<open>task-a-task-b\<close> is grouped under
  \<^verbatim>\<open>a-\<close>, not under the text \<^verbatim>\<open>a-task-b\<close> behind its first \<^verbatim>\<open>task-\<close>; and the
  category \<^verbatim>\<open>tasks\<close>, which has no \<^verbatim>\<open>task-\<close>, is not grouped under itself: the reducer
  raises.
\<close>

theorem substring_after_first_task_prefix_counterexample:
  "after_first ''task-'' ''task-a-task-b'' = ''a-task-b''
   \<and> map_sum id (map b_category) (category_statistics [sample\<lparr>category := ''task-a-task-b''\<rparr>])
       = Inr [''a-'']
   \<and> \<not> str_contains ''task-'' ''tasks''
   \<and> category_statistics [sample\<lparr>category := ''tasks''\<rparr>] = Inl IndexError"
  by code_simp

subsection \<open>The moderator reducer\<close>

text \<open>
  Claim C5. The moderator reducer leaves out every \<^verbatim>\<open>unreviewed\<close> record and every record
  of the moderator \<^verbatim>\<open>BANNED\<close>, and groups the others by moderator, in first-seen order:
  the bucket of a moderator holds the frequency count of the categories of the group and
  the safe average of its scores. On the three records of the specification's example
  (whatever their other fields) the output is the one bucket of \<^verbatim>\<open>B\<close>, with average
  score \<open>8\<close>.
\<close>

theorem moderator_statistics_grouping:
  "moderator_statistics cs =
     map (\<lambda>m. moderator_summary m
            (filter (\<lambda>c. status c \<noteq> ''unreviewed'' \<and> moderator c \<noteq> ''BANNED'' \<and> moderator c = m) cs))
       (first_seen (map moderator
          (filter (\<lambda>c. status c \<noteq> ''unreviewed'' \<and> moderator c \<noteq> ''BANNED'') cs)))
   \<and> moderator_statistics
        [r1\<lparr>status := ''unreviewed'', moderator := ''A''\<rparr>,
         r2\<lparr>status := ''reviewed'', moderator := ''BANNED'', score := 5\<rparr>,
         r3\<lparr>status := ''reviewed'', moderator := ''B'', score := 8, category := ''c1''\<rparr>]
      = [\<lparr>m_moderator = ''B'', m_category = [(''c1'', 1)], m_average_score = 8\<rparr>]"
proof
  show "moderator_statistics cs =
     map (\<lambda>m. moderator_summary m
            (filter (\<lambda>c. status c \<noteq> ''unreviewed'' \<and> moderator c \<noteq> ''BANNED'' \<and> moderator c = m) cs))
       (first_seen (map moderator
          (filter (\<lambda>c. status c \<noteq> ''unreviewed'' \<and> moderator c \<noteq> ''BANNED'') cs)))"
    by (rule moderator_statistics_grouped)
  show "moderator_statistics
        [r1\<lparr>status := ''unreviewed'', moderator := ''A''\<rparr>,
         r2\<lparr>status := ''reviewed'', moderator := ''BANNED'', score := 5\<rparr>,
         r3\<lparr>status := ''reviewed'', moderator := ''B'', score := 8, category := ''c1''\<rparr>]
      = [\<lparr>m_moderator = ''B'', m_category = [(''c1'', 1)], m_average_score = 8\<rparr>]"
    by (simp add: moderator_statistics_def Let_def setdefault_def modify_def Counter_def
        average_def mean_def)
qed

subsection \<open>Vote-status accounting\<close>





subsection \<open>The task-request filter\<close>

text \<open>
  Claim C7. The task-request filter returns exactly the records whose category has
  \<^verbatim>\<open>task\<close> as a substring, whatever their status. An \<^verbatim>\<open>unreviewed\<close> record of category
  \<^verbatim>\<open>task-ideas\<close> is in its output, while the category reducer gives the same result with
  and without the record, and no bucket for the record alone.
\<close>

theorem task_request_filter_ignores_status:
  assumes "status u = ''unreviewed''" "category u = ''task-ideas''"
  shows "task_request_statistics cs = filter (\<lambda>c. \<exists>p q. category c = p @ ''task'' @ q) cs
    \<and> u \<in> set (task_request_statistics (xs @ u # ys))
    \<and> category_statistics (xs @ u # ys) = category_statistics (xs @ ys)
    \<and> category_statistics [u] = Inr []"
proof (intro conjI)
  show "task_request_statistics cs = filter (\<lambda>c. \<exists>p q. category c = p @ ''task'' @ q) cs"
    by (simp add: task_request_statistics_def task_request_loop_filter str_contains_iff)
  from assms(2) show "u \<in> set (task_request_statistics (xs @ u # ys))"
    by (simp add: task_request_statistics_def task_request_loop_filter)
  from assms(1) have u: "\<not> counted u" "\<not> stray_task u"
    by (simp_all add: counted_def stray_task_def)
  then show "category_statistics (xs @ u # ys) = category_statistics (xs @ ys)"
    by (simp add: category_statistics_summary)
  from u show "category_statistics [u] = Inr []"
    by (simp add: category_statistics_summary)
qed

theorem task_request_filter_ignores_status_witness:
  "task_request_statistics
     [sample\<lparr>category := ''dev''\<rparr>, sample\<lparr>status := ''unreviewed'', category := ''task-ideas''\<rparr>]
     = [sample\<lparr>status := ''unreviewed'', category := ''task-ideas''\<rparr>]
   \<and> category_statistics
       [sample\<lparr>category := ''dev''\<rparr>, sample\<lparr>status := ''unreviewed'', category := ''task-ideas''\<rparr>]
     = category_statistics [sample\<lparr>category := ''dev''\<rparr>]
   \<and> category_statistics [sample\<lparr>status := ''unreviewed'', category := ''task-ideas''\<rparr>] = Inr []"
proof -
  let ?u = "sample\<lparr>status := ''unreviewed'', category := ''task-ideas''\<rparr>"
  have t: "task_request_statistics [sample\<lparr>category := ''dev''\<rparr>, ?u] = [?u]"
    by code_simp
  from task_request_filter_ignores_status [of ?u "[]" "[sample\<lparr>category := ''dev''\<rparr>]" "[]"]
  show ?thesis using t by simp
qed

subsection \<open>Records of the moderator \<^verbatim>\<open>BANNED\<close>\<close>





end
